theory Spec2Isabelle
  imports Main "HOL-Library.Word" "HOL-Library.Sublist"
begin

unbundle bit_operations_syntax

section \<open>Registration core of application/lib/registration.go\<close>

text \<open>
  The development follows the Go file top to bottom: the library functions the file
  calls (\<^verbatim>\<open>encoding/hex\<close>, the verbs of \<^verbatim>\<open>fmt.Sprintf\<close> that occur in it), the
  registration entity with its two presentation helpers, the liveness prober as an
  interleaving of its goroutines, the registration table, and the constructor of the
  manager. A nil pointer is \<open>None\<close>, a runtime panic is a value of type \<open>fault\<close>, a call
  that never returns is \<open>None\<close> of an option-valued partial function, and every reading of
  the clock is an explicit argument.
\<close>

subsection \<open>Bytes, addresses, time\<close>

type_synonym byte = "8 word"

text \<open>\<^verbatim>\<open>net.IP\<close> is a byte slice; \<^verbatim>\<open>*net.IP\<close> is \<open>IP option\<close>.\<close>

type_synonym IP = "byte list"

text \<open>
  \<^verbatim>\<open>time.Time\<close> and \<^verbatim>\<open>time.Duration\<close> in nanoseconds. \<open>t.Add d\<close> is \<open>t + d\<close> and
  \<open>t.After u\<close> is \<open>u < t\<close>.
\<close>

type_synonym time = int
type_synonym Duration = int

definition Millisecond :: Duration where
  "Millisecond = 1000000"

definition Minute :: Duration where
  "Minute = 60000000000"

subsection \<open>encoding/hex\<close>

definition hextable :: string where
  "hextable = ''0123456789abcdef''"

definition hex_EncodedLen :: "nat \<Rightarrow> nat" where
  "hex_EncodedLen n = n * 2"

text \<open>The two characters \<^verbatim>\<open>hextable[v>>4]\<close>, \<^verbatim>\<open>hextable[v&0x0f]\<close> for every source byte.\<close>

fun hexchars :: "byte list \<Rightarrow> string" where
  "hexchars [] = []"
| "hexchars (v # src) =
     hextable ! unat (drop_bit 4 v) # hextable ! unat (v AND 0x0f) # hexchars src"

text \<open>
  \<^verbatim>\<open>hex.Encode(dst, src)\<close> overwrites the first \<open>2 * len(src)\<close> bytes of \<open>dst\<close> and returns
  that number. Both callers pass a \<open>dst\<close> of exactly \<open>EncodedLen(len(src))\<close> bytes.
\<close>

definition hex_Encode :: "string \<Rightarrow> byte list \<Rightarrow> string \<times> nat" where
  "hex_Encode dst src = (hexchars src @ drop (length src * 2) dst, length src * 2)"

text \<open>\<^verbatim>\<open>make([]byte, n)\<close>: \<open>n\<close> zero bytes.\<close>

definition make_bytes :: "nat \<Rightarrow> string" where
  "make_bytes n = replicate n (CHR 0x00)"

subsection \<open>The verbs of fmt.Sprintf that the file uses\<close>

text \<open>
  The file formats strings with \<^verbatim>\<open>%v\<close> and \<^verbatim>\<open>%s\<close> and a \<^verbatim>\<open>uint8\<close> with \<^verbatim>\<open>%02x\<close>.
  \<open>digits b n\<close> is \<open>n\<close> in base \<open>b\<close> with lower-case digits and no padding; \<open>pad0 w\<close> pads
  with zeros on the left up to width \<open>w\<close>, as the flag \<^verbatim>\<open>0\<close> with a width does.
\<close>

function digits :: "nat \<Rightarrow> nat \<Rightarrow> string" where
  "digits b n =
     (if b < 2 \<or> n < b then [hextable ! n]
      else digits b (n div b) @ [hextable ! (n mod b)])"
  by pat_completeness auto
termination
  by (relation "measure (\<lambda>(b, n). n)") auto

definition pad0 :: "nat \<Rightarrow> string \<Rightarrow> string" where
  "pad0 w s = replicate (w - length s) (CHR ''0'') @ s"

datatype operand = OString string | OUint8 byte

fun verb_v :: "operand \<Rightarrow> string" where
  "verb_v (OString s) = s"
| "verb_v (OUint8 v) = digits 10 (unat v)"

fun verb_s :: "operand \<Rightarrow> string" where
  "verb_s (OString s) = s"
| "verb_s (OUint8 v) = ''%!s(uint8='' @ digits 10 (unat v) @ '')''"

fun verb_02x :: "operand \<Rightarrow> string" where
  "verb_02x (OUint8 v) = pad0 2 (digits 16 (unat v))"
| "verb_02x (OString s) = pad0 2 (hexchars (map of_char s))"

text \<open>
  The format string is read left to right; a verb consumes the next operand. Every call
  in the file gives each verb its operand; a verb without one prints Go's
  \<^verbatim>\<open>%!v(MISSING)\<close>.
\<close>

fun Sprintf :: "string \<Rightarrow> operand list \<Rightarrow> string" where
  "Sprintf [] a = []"
| "Sprintf (c # f) a =
     (if c \<noteq> CHR ''%'' then c # Sprintf f a
      else if take 1 f = ''v'' then
        (case a of [] \<Rightarrow> ''%!v(MISSING)'' @ Sprintf (drop 1 f) []
         | x # a' \<Rightarrow> verb_v x @ Sprintf (drop 1 f) a')
      else if take 1 f = ''s'' then
        (case a of [] \<Rightarrow> ''%!s(MISSING)'' @ Sprintf (drop 1 f) []
         | x # a' \<Rightarrow> verb_s x @ Sprintf (drop 1 f) a')
      else if take 3 f = ''02x'' then
        (case a of [] \<Rightarrow> ''%!x(MISSING)'' @ Sprintf (drop 3 f) []
         | x # a' \<Rightarrow> verb_02x x @ Sprintf (drop 3 f) a')
      else c # Sprintf f a)"

subsection \<open>Errors and faults\<close>

text \<open>
  An error value is either one that a collaborator outside the file returned
  (\<^verbatim>\<open>net.Dial\<close>, \<^verbatim>\<open>NewDDIpSelector\<close>), named by its message, or one that the file builds
  with \<^verbatim>\<open>fmt.Errorf\<close>, kept as the format string and its operands.
\<close>

datatype error = External string | Errorf string "errarg list"
  and errarg = EDuration Duration | EError error

text \<open>The runtime panic of a nil pointer dereference.\<close>

datatype fault = NilDereference

subsection \<open>The registration entity\<close>

text \<open>
  Modelled from the spec: the struct \<^verbatim>\<open>ConjureSharedKeys\<close> is declared in another file of
  the package. The spec's data model gives it "at minimum a shared secret byte sequence";
  \<^verbatim>\<open>NewRegistration\<close> also reads a seed from it.
\<close>

record ConjureSharedKeys =
  SharedSecret :: "byte list"
  DarkDecoySeed :: "byte list"

record DecoyRegistration =
  DarkDecoy :: "IP option"
  keys :: "ConjureSharedKeys option"
  Covert :: string
  Mask :: string
  Flags :: byte

text \<open>
  \<^verbatim>\<open>String\<close>, lines 85 to 96. The method \<^verbatim>\<open>net.IP.String\<close> is a parameter,
  \<open>IP_String\<close>. On a nil receiver the method calls itself on the same receiver before it
  formats anything. On a receiver whose \<open>keys\<close> or \<open>DarkDecoy\<close> is nil the field access
  panics.
\<close>

partial_function (option) DecoyRegistration_String ::
    "(IP \<Rightarrow> string) \<Rightarrow> DecoyRegistration option \<Rightarrow> (fault + string) option" where
  "DecoyRegistration_String IP_String reg =
     (case reg of
        None \<Rightarrow>
          Option.bind (DecoyRegistration_String IP_String reg)
            (\<lambda>res. case res of
               Inl f \<Rightarrow> Some (Inl f)
             | Inr s \<Rightarrow> Some (Inr (Sprintf ''%v'' [OString s])))
      | Some r \<Rightarrow>
          (case keys r of
             None \<Rightarrow> Some (Inl NilDereference)
           | Some k \<Rightarrow>
               let reprStr =
                     fst (hex_Encode (make_bytes (hex_EncodedLen (length (SharedSecret k))))
                            (SharedSecret k))
               in (case DarkDecoy r of
                     None \<Rightarrow> Some (Inl NilDereference)
                   | Some ip \<Rightarrow>
                       Some (Inr (Sprintf
                         ''{phantom=%v, covert=%v, mask=%v, flags=0x%02x, Shared Secret:%s}''
                         [OString (IP_String ip), OString (Covert r), OString (Mask r),
                          OUint8 (Flags r), OString reprStr])))))"

text \<open>\<^verbatim>\<open>IDString\<close>, lines 98 to 109.\<close>

definition IDString :: "DecoyRegistration option \<Rightarrow> string" where
  "IDString reg =
     (case reg of
        None \<Rightarrow> ''000000''
      | Some r \<Rightarrow>
          (case keys r of
             None \<Rightarrow> ''000000''
           | Some k \<Rightarrow>
               let (secret, n) =
                     hex_Encode (make_bytes (hex_EncodedLen (length (SharedSecret k))))
                       (SharedSecret k)
               in if n < 6 then ''000000'' else Sprintf ''%s'' [OString (take 6 secret)]))"

text \<open>The entity of the spec's scenario, and two variations of it.\<close>

definition scenario_keys :: ConjureSharedKeys where
  "scenario_keys = \<lparr>SharedSecret = [0xde, 0xad, 0xbe, 0xef], DarkDecoySeed = []\<rparr>"

definition scenario_reg :: DecoyRegistration where
  "scenario_reg =
     \<lparr>DarkDecoy = Some [10, 0, 0, 5], keys = Some scenario_keys,
      Covert = ''example.com'', Mask = ''decoy.test'', Flags = 0x01\<rparr>"

definition short_keys :: ConjureSharedKeys where
  "short_keys = \<lparr>SharedSecret = [0xde, 0xad], DarkDecoySeed = []\<rparr>"

text \<open>
  The dotted rendering of a four-byte address, which is what \<^verbatim>\<open>net.IP.String\<close> prints for
  one. It stands in for the parameter \<open>IP_String\<close> in the examples.
\<close>

definition dotted_quad :: "IP \<Rightarrow> string" where
  "dotted_quad ip =
     (case ip of
        [a, b, c, d] \<Rightarrow>
          digits 10 (unat a) @ ''.'' @ digits 10 (unat b) @ ''.'' @
          digits 10 (unat c) @ ''.'' @ digits 10 (unat d)
      | _ \<Rightarrow> ''?'' @ hexchars ip)"

subsection \<open>The liveness prober\<close>

text \<open>
  \<^verbatim>\<open>phantomIsLive\<close>, lines 126 to 159. The closure \<^verbatim>\<open>testConnect\<close> dials and then acts on
  the channel and the connection; \<open>testConnect d\<close> is what it does once \<^verbatim>\<open>net.Dial\<close> has
  returned \<open>d\<close> (\<open>None\<close> for a connection, \<open>Some err\<close> for an error), in program order.
\<close>

definition width :: nat where
  "width = 8"

definition phantomIsLive_timeout :: Duration where
  "phantomIsLive_timeout = 750 * Millisecond"

datatype action = CloseConn | Send "error option"

fun testConnect :: "error option \<Rightarrow> action list" where
  "testConnect (Some err) = [Send (Some err)]"
| "testConnect None = [CloseConn, Send None]"

fun is_Send :: "action \<Rightarrow> bool" where
  "is_Send (Send v) = True"
| "is_Send CloseConn = False"

text \<open>
  The state of one call: the buffered channel \<open>dialError\<close> (first in, first out) with its
  capacity, what each goroutine has still to do, and the value the caller returned
  (\<open>None\<close> while it sleeps). \<open>reported\<close> is a history variable that the program does not
  have: every outcome sent so far, in the order of the sends.
\<close>

record prober =
  dialError :: "error option list"
  capacity :: nat
  attempts :: "action list list"
  returned :: "(bool \<times> error option) option"
  reported :: "error option list"

text \<open>
  The state after \<^verbatim>\<open>make(chan error, width)\<close> and the loop that starts \<open>width\<close> goroutines;
  \<open>dial i\<close> is what \<^verbatim>\<open>net.Dial\<close> gives the \<open>i\<close>-th of them.
\<close>

definition start :: "(nat \<Rightarrow> error option) \<Rightarrow> prober" where
  "start dial =
     \<lparr>dialError = [], capacity = width,
      attempts = map (\<lambda>i. testConnect (dial i)) [0..<width],
      returned = None, reported = []\<rparr>"

text \<open>
  The \<^verbatim>\<open>select\<close> with a \<^verbatim>\<open>default\<close> branch, lines 149 to 158: it receives the oldest
  buffered value when there is one and takes the default branch otherwise.
\<close>

definition select_dialError :: "prober \<Rightarrow> prober" where
  "select_dialError s =
     (case dialError s of
        [] \<Rightarrow>
          s\<lparr>returned := Some (False,
               Some (Errorf ''Reached statistical timeout %v ms''
                      [EDuration phantomIsLive_timeout]))\<rparr>
      | err # q \<Rightarrow>
          s\<lparr>dialError := q,
            returned := Some (case err of Some e \<Rightarrow> (False, Some e) | None \<Rightarrow> (True, None))\<rparr>)"

text \<open>
  One step of the interleaving: a goroutine closes its connection, a goroutine sends (a
  send on a buffered channel proceeds only below capacity and blocks otherwise), or the
  caller, its sleep over, runs the \<^verbatim>\<open>select\<close> and returns.
\<close>

inductive step :: "prober \<Rightarrow> prober \<Rightarrow> bool" where
  close:
    "i < length (attempts s) \<Longrightarrow> attempts s ! i = CloseConn # rest \<Longrightarrow>
     step s (s\<lparr>attempts := (attempts s)[i := rest]\<rparr>)"
| send:
    "i < length (attempts s) \<Longrightarrow> attempts s ! i = Send v # rest \<Longrightarrow>
     length (dialError s) < capacity s \<Longrightarrow>
     step s (s\<lparr>dialError := dialError s @ [v], attempts := (attempts s)[i := rest],
               reported := reported s @ [v]\<rparr>)"
| select:
    "returned s = None \<Longrightarrow> step s (select_dialError s)"

inductive reachable :: "(nat \<Rightarrow> error option) \<Rightarrow> prober \<Rightarrow> bool" where
  init: "reachable dial (start dial)"
| next_step: "reachable dial s \<Longrightarrow> step s s' \<Longrightarrow> reachable dial s'"

text \<open>
  Three quantities of a state for the proofs: the sends that the goroutines have still to
  do, that every send left in the \<open>i\<close>-th goroutine carries \<open>dial i\<close>, and that every
  outcome sent so far is the outcome of one of the \<open>width\<close> dials.
\<close>

definition pending_sends :: "prober \<Rightarrow> nat" where
  "pending_sends s = sum_list (map (\<lambda>a. length (filter is_Send a)) (attempts s))"

definition attempts_ok :: "(nat \<Rightarrow> error option) \<Rightarrow> action list list \<Rightarrow> bool" where
  "attempts_ok dial as \<longleftrightarrow> (\<forall>i < length as. \<forall>v. Send v \<in> set (as ! i) \<longrightarrow> v = dial i)"

definition reported_ok :: "(nat \<Rightarrow> error option) \<Rightarrow> error option list \<Rightarrow> bool" where
  "reported_ok dial vs \<longleftrightarrow> (\<forall>v \<in> set vs. \<exists>i < width. v = dial i)"

text \<open>
  An example: the first dial is refused, the others connect. \<open>example_late\<close> is the state
  in which the caller has woken and returned before any goroutine has sent;
  \<open>example_state\<close> is the state after the first goroutine has sent its error, the caller
  still asleep.
\<close>

definition example_dial :: "nat \<Rightarrow> error option" where
  "example_dial i = (if i = 0 then Some (External ''connection refused'') else None)"

definition example_late :: prober where
  "example_late = select_dialError (start example_dial)"

definition example_state :: prober where
  "example_state =
     (start example_dial)
       \<lparr>dialError := [Some (External ''connection refused'')],
        attempts := (attempts (start example_dial))[0 := []],
        reported := [Some (External ''connection refused'')]\<rparr>"

subsection \<open>The registration table\<close>

record decoyTimeout =
  decoy :: string
  registrationTime :: time

text \<open>
  \<^verbatim>\<open>register\<close> stores non-nil pointers only, so the map holds entities and a missing key
  reads as nil.
\<close>

record RegisteredDecoys =
  decoys :: "string \<rightharpoonup> DecoyRegistration"
  decoysTimeouts :: "decoyTimeout list"

definition NewRegisteredDecoys :: RegisteredDecoys where
  "NewRegisteredDecoys = \<lparr>decoys = Map.empty, decoysTimeouts = []\<rparr>"

text \<open>\<^verbatim>\<open>register\<close>, lines 176 to 186; \<open>now\<close> is the value of \<^verbatim>\<open>time.Now()\<close>.\<close>

definition register ::
    "time \<Rightarrow> string \<Rightarrow> DecoyRegistration option \<Rightarrow> RegisteredDecoys \<Rightarrow> RegisteredDecoys" where
  "register now darkDecoyAddr d r =
     (case d of
        None \<Rightarrow> r
      | Some reg \<Rightarrow>
          r\<lparr>decoys := (decoys r)(darkDecoyAddr \<mapsto> reg),
            decoysTimeouts :=
              decoysTimeouts r @ [\<lparr>decoy = darkDecoyAddr, registrationTime = now\<rparr>]\<rparr>)"

text \<open>
  \<^verbatim>\<open>checkRegistration\<close>, lines 188 to 194. The argument is a pointer and the method calls
  \<^verbatim>\<open>String\<close> on what it points to.
\<close>

definition checkRegistration ::
    "(IP \<Rightarrow> string) \<Rightarrow> RegisteredDecoys \<Rightarrow> IP option \<Rightarrow> fault + DecoyRegistration option" where
  "checkRegistration IP_String r darkDecoyAddr =
     (case darkDecoyAddr of
        None \<Rightarrow> Inl NilDereference
      | Some ip \<Rightarrow> Inr (decoys r (IP_String ip)))"

text \<open>
  \<^verbatim>\<open>removeOldRegistrations\<close>, lines 197 to 211. \<open>removeLoop\<close> is the \<^verbatim>\<open>for\<close> loop with its
  \<^verbatim>\<open>break\<close>; it returns the final \<open>idx\<close> and the map.
\<close>

definition removeOld_timeout :: Duration where
  "removeOld_timeout = - Minute * 5"

function removeLoop ::
    "time \<Rightarrow> decoyTimeout list \<Rightarrow> nat \<Rightarrow> (string \<rightharpoonup> DecoyRegistration) \<Rightarrow>
     nat \<times> (string \<rightharpoonup> DecoyRegistration)" where
  "removeLoop cutoff ts idx m =
     (if idx < length ts then
        (if registrationTime (ts ! idx) < cutoff then (idx, m)
         else removeLoop cutoff ts (idx + 1) (m(decoy (ts ! idx) := None)))
      else (idx, m))"
  by pat_completeness auto
termination
  by (relation "measure (\<lambda>(cutoff, ts, idx, m). length ts - idx)") auto

definition removeOldRegistrations :: "time \<Rightarrow> RegisteredDecoys \<Rightarrow> RegisteredDecoys" where
  "removeOldRegistrations now r =
     (let cutoff = now + removeOld_timeout;
          (idx, m) = removeLoop cutoff (decoysTimeouts r) 0 (decoys r)
      in r\<lparr>decoys := m, decoysTimeouts := drop idx (decoysTimeouts r)\<rparr>)"

text \<open>
  The callers of the table run under its lock, one at a time. A call is one of the three
  methods; \<open>exec\<close> is the table after it, and \<open>run\<close> a sequence of calls, each with the
  clock reading it sees.
\<close>

datatype call =
    Register string "DecoyRegistration option"
  | CheckRegistration "IP option"
  | RemoveOldRegistrations

fun exec :: "time \<Rightarrow> call \<Rightarrow> RegisteredDecoys \<Rightarrow> RegisteredDecoys" where
  "exec now (Register darkDecoyAddr d) r = register now darkDecoyAddr d r"
| "exec now (CheckRegistration darkDecoyAddr) r = r"
| "exec now RemoveOldRegistrations r = removeOldRegistrations now r"

fun run :: "(time \<times> call) list \<Rightarrow> RegisteredDecoys \<Rightarrow> RegisteredDecoys" where
  "run [] r = r"
| "run ((now, c) # cs) r = run cs (exec now c r)"

fun registerAll ::
    "(time \<times> string \<times> DecoyRegistration option) list \<Rightarrow> RegisteredDecoys \<Rightarrow> RegisteredDecoys" where
  "registerAll [] r = r"
| "registerAll ((now, darkDecoyAddr, d) # cs) r = registerAll cs (register now darkDecoyAddr d r)"

text \<open>
  The queue is in order up to the clock reading \<open>now\<close>: the stamps do not decrease along
  it and none is later than \<open>now\<close>.
\<close>

definition queue_ordered :: "time \<Rightarrow> RegisteredDecoys \<Rightarrow> bool" where
  "queue_ordered now r \<longleftrightarrow>
     sorted (map registrationTime (decoysTimeouts r)) \<and>
     list_all (\<lambda>e. registrationTime e \<le> now) (decoysTimeouts r)"

text \<open>The table of the spec's scenario: one registration at time 0.\<close>

definition scenario_table :: RegisteredDecoys where
  "scenario_table = register 0 ''10.0.0.5'' (Some scenario_reg) NewRegisteredDecoys"

subsection \<open>The manager's constructor\<close>

text \<open>\<^verbatim>\<open>log.New(os.Stdout, "", log.Lmicroseconds)\<close>: a prefix and a flag word.\<close>

record Logger =
  prefix :: string
  flag :: nat

definition Lmicroseconds :: nat where
  "Lmicroseconds = 4"

record 'sel RegistrationManager =
  registeredDecoys :: RegisteredDecoys
  Logger :: Logger
  DDSelector :: 'sel

text \<open>
  \<^verbatim>\<open>NewRegistrationManager\<close>, lines 24 to 37. \<^verbatim>\<open>NewDDIpSelector\<close> is declared in another
  file; its result is the argument. The function returns a pointer and nothing else; the
  second component is what the call writes to standard output or to a log.
\<close>

definition NewRegistrationManager ::
    "error + 'sel \<Rightarrow> 'sel RegistrationManager option \<times> string list" where
  "NewRegistrationManager newDDIpSelector =
     (let logger = \<lparr>prefix = [], flag = Lmicroseconds\<rparr> in
      case newDDIpSelector of
        Inl err \<Rightarrow>
          (let _ = Errorf (''Failed to create the DDIpSelector Object: %v'' @ [CHR 0x0A])
                     [EError err]
           in (None, []))
      | Inr d \<Rightarrow>
          (Some \<lparr>registeredDecoys = NewRegisteredDecoys, Logger = logger, DDSelector = d\<rparr>,
           []))"

section \<open>Verification\<close>

declare digits.simps [simp del]
declare Sprintf.simps (2) [simp del]
declare removeLoop.simps [simp del]

subsection \<open>Formatting\<close>

lemma Sprintf_lit: "c \<noteq> CHR ''%'' \<Longrightarrow> Sprintf (c # f) a = c # Sprintf f a"
  by (simp add: Sprintf.simps(2))

lemma Sprintf_v: "Sprintf (CHR ''%'' # CHR ''v'' # f) (x # a) = verb_v x @ Sprintf f a"
  by (simp add: Sprintf.simps(2))

lemma Sprintf_s: "Sprintf (CHR ''%'' # CHR ''s'' # f) (x # a) = verb_s x @ Sprintf f a"
  by (simp add: Sprintf.simps(2))

lemma Sprintf_02x:
  "Sprintf (CHR ''%'' # CHR ''0'' # CHR ''2'' # CHR ''x'' # f) (x # a) = verb_02x x @ Sprintf f a"
  by (simp add: Sprintf.simps(2))

lemma length_hexchars: "length (hexchars src) = 2 * length src"
  by (induction src) auto

lemma hex_Encode_exact:
  "hex_Encode (make_bytes (hex_EncodedLen (length src))) src = (hexchars src, 2 * length src)"
  by (simp add: hex_Encode_def make_bytes_def hex_EncodedLen_def)

lemma unat_high_nibble: "unat (drop_bit 4 (v :: byte)) = unat v div 16"
proof -
  have "unat (drop_bit 4 v) = drop_bit 4 (unat v)" by (rule unat_drop_bit_eq)
  also have "\<dots> = unat v div 2 ^ 4" by (rule drop_bit_eq_div)
  finally show ?thesis by simp
qed

lemma unat_low_nibble: "unat ((v :: byte) AND 0x0f) = unat v mod 16"
proof -
  have "(0x0f :: byte) = mask 4" by (simp add: mask_eq_exp_minus_1)
  then have "v AND 0x0f = take_bit 4 v" by (simp only: take_bit_eq_mask)
  then have "unat (v AND 0x0f) = take_bit 4 (unat v)" by (simp only: unsigned_take_bit_eq)
  then show ?thesis by (simp only: take_bit_eq_mod) simp
qed

text \<open>The encoding of a byte sequence, byte by byte: high digit, low digit.\<close>

lemma hexchars_concat:
  "hexchars src =
   concat (map (\<lambda>v. [hextable ! (unat v div 16), hextable ! (unat v mod 16)]) src)"
  by (induction src) (simp_all only: hexchars.simps unat_high_nibble unat_low_nibble
      list.map concat.simps append.simps)

lemma unat_byte_less: "unat (v :: byte) < 256"
  using unsigned_less [of v, where 'a = nat] by simp

lemma digits16_byte:
  assumes "n < 256"
  shows "digits 16 n =
    (if n < 16 then [hextable ! n] else [hextable ! (n div 16), hextable ! (n mod 16)])"
proof -
  have "n div 16 < 16" using assms by simp
  then show ?thesis
    by (subst digits.simps, subst digits.simps) simp
qed

lemma verb_02x_byte:
  "pad0 2 (digits 16 (unat (v :: byte))) =
   [hextable ! (unat v div 16), hextable ! (unat v mod 16)]"
proof -
  have "hextable ! 0 = CHR ''0''" by (simp add: hextable_def)
  then show ?thesis
    by (simp add: digits16_byte [OF unat_byte_less] pad0_def)
qed

lemma Sprintf_digest:
  "Sprintf ''{phantom=%v, covert=%v, mask=%v, flags=0x%02x, Shared Secret:%s}''
     [OString p, OString c, OString m, OUint8 fl, OString h] =
   ''{phantom='' @ p @ '', covert='' @ c @ '', mask='' @ m @ '', flags=0x'' @
     [hextable ! (unat fl div 16), hextable ! (unat fl mod 16)] @
     '', Shared Secret:'' @ h @ ''}''"
  by (simp add: Sprintf_lit Sprintf_v Sprintf_s Sprintf_02x verb_02x_byte)

lemma dotted_quad_example: "dotted_quad [10, 0, 0, 5] = ''10.0.0.5''"
  by code_simp

subsection \<open>String\<close>

lemma String_returns_non_nil:
  assumes "DecoyRegistration_String f reg = Some y"
  shows "reg \<noteq> None"
proof (rule DecoyRegistration_String.raw_induct
         [where P = "\<lambda>_ reg _. reg \<noteq> None", OF _ assms], goal_cases)
  case (1 String g reg' y')
  show ?case
  proof
    assume "reg' = None"
    with 1(2) obtain res where "String g None = Some res"
      by (auto simp: Option.bind_eq_Some_conv)
    with 1(1) show False by blast
  qed
qed

lemma String_Some:
  "DecoyRegistration_String f (Some r) =
     (case keys r of
        None \<Rightarrow> Some (Inl NilDereference)
      | Some k \<Rightarrow>
          (case DarkDecoy r of
             None \<Rightarrow> Some (Inl NilDereference)
           | Some ip \<Rightarrow>
               Some (Inr (Sprintf
                 ''{phantom=%v, covert=%v, mask=%v, flags=0x%02x, Shared Secret:%s}''
                 [OString (f ip), OString (Covert r), OString (Mask r),
                  OUint8 (Flags r), OString (hexchars (SharedSecret k))]))))"
  by (subst DecoyRegistration_String.simps) (simp add: hex_Encode_exact split: option.splits)

text \<open>
  Claim C2 says that \<^verbatim>\<open>String\<close> and \<^verbatim>\<open>IDString\<close> on a nil entity return a fixed sentinel
  and never fault. For \<^verbatim>\<open>String\<close> the code does otherwise: the branch for the nil receiver
  calls \<^verbatim>\<open>reg.String()\<close> on the same nil receiver, so the call on nil never returns (in Go
  the recursion ends the process with a stack overflow). \<^verbatim>\<open>IDString\<close> on nil does return
  \<^verbatim>\<open>"000000"\<close>; that half is proved with the claim on \<^verbatim>\<open>IDString\<close> below.
\<close>

theorem String_nil_never_returns: "DecoyRegistration_String IP_String None = None"
  using String_returns_non_nil [of IP_String None]
  by (cases "DecoyRegistration_String IP_String None") auto

text \<open>
  Claim C6, as amended: for every non-nil entity with non-nil key material and a non-nil
  phantom address, \<^verbatim>\<open>String\<close> returns exactly
  \<^verbatim>\<open>{phantom=<ip>, covert=<str>, mask=<str>, flags=0x<hh>, Shared Secret:<hex>}\<close>, the fields
  in that order, \<^verbatim>\<open><hh>\<close> the two lower-case hex digits of the flags byte (high digit
  first) and \<^verbatim>\<open><hex>\<close> two such digits for every byte of the shared secret.
\<close>

theorem String_digest_format:
  assumes "keys r = Some k" and "DarkDecoy r = Some ip"
  shows "DecoyRegistration_String IP_String (Some r) =
    Some (Inr (''{phantom='' @ IP_String ip @ '', covert='' @ Covert r @ '', mask='' @ Mask r @
      '', flags=0x'' @ [hextable ! (unat (Flags r) div 16), hextable ! (unat (Flags r) mod 16)] @
      '', Shared Secret:'' @
      concat (map (\<lambda>v. [hextable ! (unat v div 16), hextable ! (unat v mod 16)])
                (SharedSecret k)) @
      ''}''))"
  using assms by (simp only: String_Some option.case Sprintf_digest hexchars_concat)

text \<open>The entity of the spec's scenario.\<close>

theorem String_digest_format_witness:
  "DecoyRegistration_String dotted_quad (Some scenario_reg) =
     Some (Inr ''{phantom=10.0.0.5, covert=example.com, mask=decoy.test, flags=0x01, Shared Secret:deadbeef}'')"
  using String_digest_format [of scenario_reg scenario_keys "[10, 0, 0, 5]" dotted_quad]
  by (simp add: scenario_reg_def scenario_keys_def dotted_quad_example hextable_def)

text \<open>
  Without the condition on the phantom address the claim fails: the field \<open>DarkDecoy\<close> is
  a pointer, and on an entity with key material and a nil \<open>DarkDecoy\<close> the call panics
  instead of producing a digest.
\<close>

theorem String_nil_phantom_faults:
  "keys (scenario_reg\<lparr>DarkDecoy := None\<rparr>) = Some scenario_keys \<and>
   DecoyRegistration_String dotted_quad (Some (scenario_reg\<lparr>DarkDecoy := None\<rparr>)) =
     Some (Inl NilDereference)"
  by (simp add: String_Some scenario_reg_def)

subsection \<open>IDString\<close>

text \<open>
  Claim C5: \<^verbatim>\<open>IDString\<close> returns \<^verbatim>\<open>"000000"\<close> on a nil entity, on an entity with nil key
  material and on an entity whose shared secret is shorter than 3 bytes; otherwise it
  returns the first 6 characters of the hex encoding of the shared secret.
\<close>

theorem IDString_degradation:
  "IDString None = ''000000''
   \<and> (keys r = None \<longrightarrow> IDString (Some r) = ''000000'')
   \<and> (keys r = Some k \<and> length (SharedSecret k) < 3 \<longrightarrow> IDString (Some r) = ''000000'')
   \<and> (keys r = Some k \<and> 3 \<le> length (SharedSecret k) \<longrightarrow>
        IDString (Some r) = take 6 (hexchars (SharedSecret k)))"
  by (auto simp: IDString_def hex_Encode_exact Sprintf_s)

text \<open>The secret \<^verbatim>\<open>0xdeadbeef\<close> of the spec's scenario gives \<^verbatim>\<open>"deadbe"\<close>.\<close>

theorem IDString_degradation_witness:
  "IDString None = ''000000''
   \<and> IDString (Some (scenario_reg\<lparr>keys := None\<rparr>)) = ''000000''
   \<and> IDString (Some (scenario_reg\<lparr>keys := Some short_keys\<rparr>)) = ''000000''
   \<and> IDString (Some scenario_reg) = ''deadbe''"
  using IDString_degradation [of "scenario_reg\<lparr>keys := None\<rparr>" short_keys]
    IDString_degradation [of "scenario_reg\<lparr>keys := Some short_keys\<rparr>" short_keys]
    IDString_degradation [of scenario_reg scenario_keys]
  by (simp add: scenario_reg_def scenario_keys_def short_keys_def hextable_def)

text \<open>The identifier has 6 characters on every input.\<close>

lemma IDString_length: "length (IDString reg) = 6"
proof (cases reg)
  case None
  then show ?thesis by (simp add: IDString_def)
next
  case (Some r)
  show ?thesis
  proof (cases "keys r")
    case None
    with Some show ?thesis by (simp add: IDString_def)
  next
    case (Some k)
    with \<open>reg = Some r\<close> show ?thesis
      by (simp add: IDString_def hex_Encode_exact Sprintf_s length_hexchars)
  qed
qed

subsection \<open>The liveness prober\<close>

lemma testConnect_one_send: "length (filter is_Send (testConnect d)) = 1"
  by (cases d) auto

lemma testConnect_sends: "Send v \<in> set (testConnect d) \<Longrightarrow> v = d"
  by (cases d) auto

lemma pending_sends_start: "pending_sends (start dial) = width"
  by (simp add: pending_sends_def start_def testConnect_one_send comp_def sum_list_triv)

lemma sum_list_map_update:
  fixes f :: "'a \<Rightarrow> nat"
  assumes "i < length xs"
  shows "sum_list (map f (xs[i := y])) + f (xs ! i) = sum_list (map f xs) + f y"
  using assms
proof (induction xs arbitrary: i)
  case Nil
  then show ?case by simp
next
  case (Cons x xs)
  then show ?case by (cases i) auto
qed

lemma step_shape: "step s s' \<Longrightarrow> capacity s' = capacity s \<and> length (attempts s') = length (attempts s)"
  by (induction rule: step.induct) (auto simp: select_dialError_def split: list.splits)

lemma reachable_shape: "reachable dial s \<Longrightarrow> capacity s = width \<and> length (attempts s) = width"
proof (induction rule: reachable.induct)
  case (init dial)
  then show ?case by (simp add: start_def)
next
  case (next_step dial s s')
  then show ?case using step_shape by fastforce
qed

lemma step_budget:
  assumes "step s s'"
  shows "length (dialError s') + pending_sends s' \<le> length (dialError s) + pending_sends s"
  using assms
proof (induction rule: step.induct)
  case (close i s rest)
  from sum_list_map_update [OF close(1), of "\<lambda>a. length (filter is_Send a)" rest] close(2)
  show ?case by (simp add: pending_sends_def)
next
  case (send i s v rest)
  from sum_list_map_update [OF send(1), of "\<lambda>a. length (filter is_Send a)" rest] send(2)
  show ?case by (simp add: pending_sends_def)
next
  case (select s)
  then show ?case
    by (simp add: select_dialError_def pending_sends_def split: list.splits)
qed

lemma reachable_budget: "reachable dial s \<Longrightarrow> length (dialError s) + pending_sends s \<le> width"
proof (induction rule: reachable.induct)
  case (init dial)
  then show ?case by (simp add: pending_sends_start) (simp add: start_def)
next
  case (next_step dial s s')
  with step_budget [of s s'] show ?case by simp
qed

lemma pending_send_positive:
  assumes "i < length (attempts s)" and "attempts s ! i = Send v # rest"
  shows "0 < pending_sends s"
proof -
  from assms have "attempts s ! i \<in> set (attempts s)" by (metis nth_mem)
  moreover from assms(2) have "0 < length (filter is_Send (attempts s ! i))" by simp
  ultimately have "0 < sum_list (map (\<lambda>a. length (filter is_Send a)) (attempts s))"
    by (metis (no_types, lifting) gr_zeroI imageI list.set_map not_less_zero sum_list_eq_0_iff)
  then show ?thesis by (simp add: pending_sends_def)
qed

text \<open>
  Claim C8: the channel has capacity \<open>width\<close>, there are \<open>width\<close> goroutines, and
  \<^verbatim>\<open>testConnect\<close> sends exactly once on either exit path; hence in every reachable state,
  before or after the caller has returned, a goroutine that is about to send finds the
  channel below capacity and its send is a step of the system.
\<close>

theorem dialError_send_never_blocks:
  assumes "reachable dial s"
  shows "capacity s = width \<and> length (attempts s) = width
    \<and> length (filter is_Send (testConnect d)) = 1
    \<and> (\<forall>i v rest. i < length (attempts s) \<and> attempts s ! i = Send v # rest \<longrightarrow>
          length (dialError s) < capacity s
          \<and> step s (s\<lparr>dialError := dialError s @ [v], attempts := (attempts s)[i := rest],
                       reported := reported s @ [v]\<rparr>))"
proof (intro conjI allI impI)
  from reachable_shape [OF assms]
  show "capacity s = width" and "length (attempts s) = width" by simp_all
  show "length (filter is_Send (testConnect d)) = 1" by (rule testConnect_one_send)
next
  fix i v rest
  assume a: "i < length (attempts s) \<and> attempts s ! i = Send v # rest"
  then have "0 < pending_sends s" by (auto intro: pending_send_positive)
  with reachable_budget [OF assms] reachable_shape [OF assms]
  show below: "length (dialError s) < capacity s" by simp
  with a show "step s (s\<lparr>dialError := dialError s @ [v], attempts := (attempts s)[i := rest],
                       reported := reported s @ [v]\<rparr>)"
    by (auto intro: step.send)
qed

lemma upt_width: "[0..<width] = [0, 1, 2, 3, 4, 5, 6, 7]"
  unfolding width_def by code_simp

lemma example_state_reachable: "reachable example_dial example_state"
proof -
  let ?s = "start example_dial"
  have "step ?s (?s\<lparr>dialError := dialError ?s @ [Some (External ''connection refused'')],
      attempts := (attempts ?s)[0 := []],
      reported := reported ?s @ [Some (External ''connection refused'')]\<rparr>)"
    by (rule step.send) (simp_all add: start_def upt_width example_dial_def width_def)
  moreover have "(?s\<lparr>dialError := dialError ?s @ [Some (External ''connection refused'')],
      attempts := (attempts ?s)[0 := []],
      reported := reported ?s @ [Some (External ''connection refused'')]\<rparr>) = example_state"
    by (simp add: example_state_def start_def)
  ultimately show ?thesis using reachable.init [of example_dial]
    by (auto intro: reachable.next_step)
qed

lemma example_late_reachable: "reachable example_dial example_late"
  unfolding example_late_def
  by (rule reachable.next_step [OF reachable.init]) (rule step.select, simp add: start_def)

text \<open>
  The caller has returned with the timeout and consumes nothing any more; the first
  goroutine can still send its error.
\<close>

theorem dialError_send_never_blocks_witness:
  "returned example_late \<noteq> None
   \<and> length (dialError example_late) < capacity example_late
   \<and> step example_late
       (example_late\<lparr>dialError := dialError example_late @ [Some (External ''connection refused'')],
          attempts := (attempts example_late)[0 := []],
          reported := reported example_late @ [Some (External ''connection refused'')]\<rparr>)"
proof -
  have head: "0 < length (attempts example_late) \<and>
      attempts example_late ! 0 = Send (Some (External ''connection refused'')) # []"
    by (simp add: example_late_def select_dialError_def start_def upt_width example_dial_def)
  have "returned example_late \<noteq> None"
    by (simp add: example_late_def select_dialError_def start_def)
  with head dialError_send_never_blocks [OF example_late_reachable, of None]
  show ?thesis by blast
qed

lemma step_history:
  assumes "step s s'" and "returned s = None \<longrightarrow> dialError s = reported s"
  shows "returned s' = None \<longrightarrow> dialError s' = reported s'"
  using assms
  by (induction rule: step.induct) (auto simp: select_dialError_def split: list.splits)

lemma reachable_history: "reachable dial s \<Longrightarrow> returned s = None \<longrightarrow> dialError s = reported s"
proof (induction rule: reachable.induct)
  case (init dial)
  then show ?case by (simp add: start_def)
next
  case (next_step dial s s')
  from step_history [OF next_step.hyps(2) next_step.IH] show ?case .
qed

lemma attempts_ok_update:
  assumes "attempts_ok dial as" and "i < length as" and "as ! i = x # rest"
  shows "attempts_ok dial (as[i := rest])"
  unfolding attempts_ok_def
proof (intro allI impI)
  fix j v
  assume j: "j < length (as[i := rest])" and v: "Send v \<in> set (as[i := rest] ! j)"
  show "v = dial j"
  proof (cases "j = i")
    case True
    with v assms(2) have "Send v \<in> set rest" by simp
    with assms(3) have "Send v \<in> set (as ! i)" by simp
    with assms(1,2) True show ?thesis by (simp add: attempts_ok_def)
  next
    case False
    with v have "Send v \<in> set (as ! j)" by simp
    with assms(1) j show ?thesis by (simp add: attempts_ok_def)
  qed
qed

lemma step_sends_of:
  assumes "step s s'" and "attempts_ok dial (attempts s)" and "reported_ok dial (reported s)"
    and "length (attempts s) = width"
  shows "attempts_ok dial (attempts s') \<and> reported_ok dial (reported s')"
  using assms(1)
proof (cases rule: step.cases)
  case (close i rest)
  with assms(2,3) attempts_ok_update [OF assms(2) close(2,3)] show ?thesis by simp
next
  case (send i v rest)
  from assms(2) send(2,3) have "v = dial i" by (simp add: attempts_ok_def)
  with send(2) assms(4) have "\<exists>i < width. v = dial i" by auto
  with assms(3) have "reported_ok dial (reported s @ [v])" by (simp add: reported_ok_def)
  with send(1) attempts_ok_update [OF assms(2) send(2,3)] show ?thesis by simp
next
  case select
  with assms(2,3) show ?thesis
    by (simp add: select_dialError_def split: list.splits)
qed

lemma reachable_sends_of:
  "reachable dial s \<Longrightarrow> attempts_ok dial (attempts s) \<and> reported_ok dial (reported s)"
proof (induction rule: reachable.induct)
  case (init dial)
  then show ?case
    by (auto simp: attempts_ok_def reported_ok_def start_def dest: testConnect_sends)
next
  case (next_step dial s s')
  from next_step.IH have a: "attempts_ok dial (attempts s)"
    and r: "reported_ok dial (reported s)" by simp_all
  from reachable_shape [OF next_step.hyps(1)] have "length (attempts s) = width" by simp
  from step_sends_of [OF next_step.hyps(2) a r this] show ?case .
qed

lemma step_returned:
  assumes "step s s'" and "returned s \<noteq> None"
  shows "returned s' = returned s"
  using assms by (cases rule: step.cases) auto

lemma steps_returned: "step\<^sup>*\<^sup>* s s' \<Longrightarrow> returned s \<noteq> None \<Longrightarrow> returned s' = returned s"
  by (induction rule: rtranclp_induct) (auto dest: step_returned)

lemma select_returns: "returned (select_dialError s) \<noteq> None"
  by (auto simp: select_dialError_def split: list.splits)

text \<open>
  Claim C4: when the caller wakes (it has not returned yet), the \<^verbatim>\<open>select\<close> is enabled
  whatever the channel holds. If no attempt has reported, the caller returns \<open>False\<close> with
  the timeout error; if the first report is an error \<open>e\<close>, it returns \<open>False\<close> with \<open>e\<close>; if
  the first report is a success, it returns \<open>True\<close> with no error. Every report is the
  outcome of the dial of one of the \<open>width\<close> attempts, and once the caller has returned,
  no later step changes what it returned.
\<close>

theorem phantomIsLive_decision:
  assumes "reachable dial s" and "returned s = None"
  shows "step s (select_dialError s)
    \<and> (reported s = [] \<longrightarrow>
         returned (select_dialError s) =
           Some (False, Some (Errorf ''Reached statistical timeout %v ms''
                               [EDuration (750 * Millisecond)])))
    \<and> (\<forall>e rest. reported s = Some e # rest \<longrightarrow>
         returned (select_dialError s) = Some (False, Some e))
    \<and> (\<forall>rest. reported s = None # rest \<longrightarrow>
         returned (select_dialError s) = Some (True, None))
    \<and> (\<forall>v \<in> set (reported s). \<exists>i < width. v = dial i)
    \<and> (\<forall>s'. step\<^sup>*\<^sup>* (select_dialError s) s' \<longrightarrow>
         returned s' = returned (select_dialError s))"
proof -
  from reachable_history [OF assms(1)] assms(2) have chan: "dialError s = reported s"
    by simp
  have "step s (select_dialError s)" using assms(2) by (rule step.select)
  moreover have "reported s = [] \<longrightarrow>
         returned (select_dialError s) =
           Some (False, Some (Errorf ''Reached statistical timeout %v ms''
                               [EDuration (750 * Millisecond)]))"
    using chan by (simp add: select_dialError_def phantomIsLive_timeout_def)
  moreover have "\<forall>e rest. reported s = Some e # rest \<longrightarrow>
         returned (select_dialError s) = Some (False, Some e)"
    using chan by (simp add: select_dialError_def)
  moreover have "\<forall>rest. reported s = None # rest \<longrightarrow>
         returned (select_dialError s) = Some (True, None)"
    using chan by (simp add: select_dialError_def)
  moreover have "\<forall>v \<in> set (reported s). \<exists>i < width. v = dial i"
    using reachable_sends_of [OF assms(1)] by (simp add: reported_ok_def)
  moreover have "\<forall>s'. step\<^sup>*\<^sup>* (select_dialError s) s' \<longrightarrow>
         returned s' = returned (select_dialError s)"
    using steps_returned select_returns by blast
  ultimately show ?thesis by blast
qed

theorem phantomIsLive_decision_witness:
  "returned (select_dialError example_state) =
     Some (False, Some (External ''connection refused''))
   \<and> returned (select_dialError (start example_dial)) =
     Some (False, Some (Errorf ''Reached statistical timeout %v ms''
                         [EDuration (750 * Millisecond)]))"
  using phantomIsLive_decision [OF example_state_reachable]
    phantomIsLive_decision [OF reachable.init [of example_dial]]
  by (simp add: example_state_def start_def)

subsection \<open>The table\<close>

lemma removeLoop_result:
  "removeLoop cutoff ts idx m = (idx', m') \<Longrightarrow>
   idx \<le> length ts \<Longrightarrow>
   idx \<le> idx' \<and> idx' \<le> length ts \<and>
   m' = (\<lambda>a. if a \<in> decoy ` set (take (idx' - idx) (drop idx ts)) then None else m a)"
proof (induction cutoff ts idx m rule: removeLoop.induct)
  case (1 cutoff ts idx m)
  show ?case
  proof (cases "idx < length ts \<and> \<not> registrationTime (ts ! idx) < cutoff")
    case False
    with "1.prems" have "idx' = idx" "m' = m"
      by (auto simp: removeLoop.simps [of cutoff ts idx m] split: if_splits)
    with "1.prems" show ?thesis by simp
  next
    case True
    with "1.prems" have rec:
      "removeLoop cutoff ts (idx + 1) (m(decoy (ts ! idx) := None)) = (idx', m')"
      by (simp add: removeLoop.simps [of cutoff ts idx m])
    from True have le: "idx + 1 \<le> length ts" by simp
    from "1.IH" [OF _ _ rec le] True
    have ih: "idx + 1 \<le> idx'" "idx' \<le> length ts"
      "m' = (\<lambda>a. if a \<in> decoy ` set (take (idx' - (idx + 1)) (drop (idx + 1) ts)) then None
                  else (m(decoy (ts ! idx) := None)) a)"
      by auto
    from True have "drop idx ts = ts ! idx # drop (idx + 1) ts"
      by (simp add: Cons_nth_drop_Suc)
    moreover from ih(1) have "idx' - idx = Suc (idx' - (idx + 1))" by simp
    ultimately have "take (idx' - idx) (drop idx ts) =
        ts ! idx # take (idx' - (idx + 1)) (drop (idx + 1) ts)"
      by simp
    with ih show ?thesis by (auto simp: fun_eq_iff)
  qed
qed

lemma removeOldRegistrations_result:
  obtains idx where
    "idx \<le> length (decoysTimeouts r)"
    "decoysTimeouts (removeOldRegistrations now r) = drop idx (decoysTimeouts r)"
    "decoys (removeOldRegistrations now r) =
       (\<lambda>a. if a \<in> decoy ` set (take idx (decoysTimeouts r)) then None else decoys r a)"
proof -
  obtain idx m where loop:
    "removeLoop (now + removeOld_timeout) (decoysTimeouts r) 0 (decoys r) = (idx, m)"
    by (cases "removeLoop (now + removeOld_timeout) (decoysTimeouts r) 0 (decoys r)")
  from removeLoop_result [OF loop] have
    "idx \<le> length (decoysTimeouts r)"
    "m = (\<lambda>a. if a \<in> decoy ` set (take idx (decoysTimeouts r)) then None else decoys r a)"
    by auto
  moreover from loop have
    "decoysTimeouts (removeOldRegistrations now r) = drop idx (decoysTimeouts r)"
    "decoys (removeOldRegistrations now r) = m"
    by (simp_all add: removeOldRegistrations_def)
  ultimately show thesis using that by blast
qed

lemma removeLoop_stops:
  "idx < length ts \<Longrightarrow> registrationTime (ts ! idx) < cutoff \<Longrightarrow>
   removeLoop cutoff ts idx m = (idx, m)"
  by (simp add: removeLoop.simps [of cutoff ts idx m])

lemma removeOld_head_expired:
  assumes "decoysTimeouts r = e # es" and "registrationTime e < now + removeOld_timeout"
  shows "removeOldRegistrations now r = r"
proof -
  from assms have "removeLoop (now + removeOld_timeout) (decoysTimeouts r) 0 (decoys r) =
      (0, decoys r)"
    by (simp add: removeLoop_stops)
  then show ?thesis by (simp add: removeOldRegistrations_def)
qed

lemma removeLoop_all_young:
  "list_all (\<lambda>e. cutoff \<le> registrationTime e) ts \<Longrightarrow>
   fst (removeLoop cutoff ts idx m) = max idx (length ts)"
proof (induction cutoff ts idx m rule: removeLoop.induct)
  case (1 cutoff ts idx m)
  show ?case
  proof (cases "idx < length ts")
    case True
    with "1.prems" have young: "\<not> registrationTime (ts ! idx) < cutoff"
      by (auto simp: list_all_length)
    with True have unfold: "removeLoop cutoff ts idx m =
        removeLoop cutoff ts (idx + 1) (m(decoy (ts ! idx) := None))"
      by (subst removeLoop.simps) simp
    have "fst (removeLoop cutoff ts (idx + 1) (m(decoy (ts ! idx) := None))) =
        max (idx + 1) (length ts)"
      by (rule "1.IH" [OF True young "1.prems"])
    then have "fst (removeLoop cutoff ts idx m) = max (idx + 1) (length ts)"
      by (simp only: unfold)
    with True show ?thesis by simp
  next
    case False
    then show ?thesis by (simp add: removeLoop.simps [of cutoff ts idx m])
  qed
qed

lemma removeOld_all_young:
  assumes "list_all (\<lambda>e. now + removeOld_timeout \<le> registrationTime e) (decoysTimeouts r)"
  shows "decoysTimeouts (removeOldRegistrations now r) = []
    \<and> (\<forall>e \<in> set (decoysTimeouts r). decoys (removeOldRegistrations now r) (decoy e) = None)"
proof -
  obtain idx m where loop:
    "removeLoop (now + removeOld_timeout) (decoysTimeouts r) 0 (decoys r) = (idx, m)"
    by (cases "removeLoop (now + removeOld_timeout) (decoysTimeouts r) 0 (decoys r)")
  with removeLoop_all_young [OF assms, of 0 "decoys r"] have idx: "idx = length (decoysTimeouts r)"
    by simp
  from removeLoop_result [OF loop] idx have
    "m = (\<lambda>a. if a \<in> decoy ` set (decoysTimeouts r) then None else decoys r a)"
    by simp
  with loop idx show ?thesis by (simp add: removeOldRegistrations_def)
qed

lemma scenario_table_eq:
  "scenario_table =
     \<lparr>decoys = [''10.0.0.5'' \<mapsto> scenario_reg],
      decoysTimeouts = [\<lparr>decoy = ''10.0.0.5'', registrationTime = 0\<rparr>]\<rparr>"
  by (simp add: scenario_table_def register_def NewRegisteredDecoys_def)

lemma registerAll_append:
  "registerAll (cs @ cs') r = registerAll cs' (registerAll cs r)"
  by (induction cs r rule: registerAll.induct) auto

lemma registerAll_frame:
  "list_all (\<lambda>c. fst (snd c) \<noteq> a \<or> snd (snd c) = None) cs \<Longrightarrow>
   decoys (registerAll cs r) a = decoys r a"
  by (induction cs r rule: registerAll.induct) (auto simp: register_def split: option.splits)

text \<open>
  Claim C3: after any sequence of \<^verbatim>\<open>register\<close> calls, from any table, a lookup of \<open>ip\<close>
  returns the entity of the last call that registered an entity under the string of
  \<open>ip\<close>, whatever calls for other addresses (and calls with a nil entity, which do
  nothing) come after it; from the empty table, if no call registered an entity under
  that string, the lookup returns nil; and after a sweep, the lookup of an address whose
  queue entry the sweep removed returns nil.
\<close>

theorem checkRegistration_most_recent:
  "(list_all (\<lambda>c. fst (snd c) \<noteq> IP_String ip \<or> snd (snd c) = None) post \<longrightarrow>
      checkRegistration IP_String
        (registerAll (pre @ (t, IP_String ip, Some e) # post) r) (Some ip) = Inr (Some e))
   \<and> (list_all (\<lambda>c. fst (snd c) \<noteq> IP_String ip \<or> snd (snd c) = None) calls \<longrightarrow>
      checkRegistration IP_String (registerAll calls NewRegisteredDecoys) (Some ip) = Inr None)
   \<and> (IP_String ip \<in> decoy ` set (take (length (decoysTimeouts r') -
           length (decoysTimeouts (removeOldRegistrations now r'))) (decoysTimeouts r')) \<longrightarrow>
      checkRegistration IP_String (removeOldRegistrations now r') (Some ip) = Inr None)"
proof (intro conjI impI)
  assume "list_all (\<lambda>c. fst (snd c) \<noteq> IP_String ip \<or> snd (snd c) = None) post"
  then have "decoys (registerAll post (register t (IP_String ip) (Some e) (registerAll pre r)))
      (IP_String ip) = Some e"
    by (simp add: registerAll_frame register_def)
  then show "checkRegistration IP_String
      (registerAll (pre @ (t, IP_String ip, Some e) # post) r) (Some ip) = Inr (Some e)"
    by (simp add: checkRegistration_def registerAll_append)
next
  assume "list_all (\<lambda>c. fst (snd c) \<noteq> IP_String ip \<or> snd (snd c) = None) calls"
  then show "checkRegistration IP_String (registerAll calls NewRegisteredDecoys) (Some ip) =
      Inr None"
    by (simp add: checkRegistration_def registerAll_frame NewRegisteredDecoys_def)
next
  assume ev: "IP_String ip \<in> decoy ` set (take (length (decoysTimeouts r') -
      length (decoysTimeouts (removeOldRegistrations now r'))) (decoysTimeouts r'))"
  obtain idx where idx: "idx \<le> length (decoysTimeouts r')"
    "decoysTimeouts (removeOldRegistrations now r') = drop idx (decoysTimeouts r')"
    "decoys (removeOldRegistrations now r') =
       (\<lambda>a. if a \<in> decoy ` set (take idx (decoysTimeouts r')) then None else decoys r' a)"
    by (rule removeOldRegistrations_result)
  from idx(1,2) have "length (decoysTimeouts r') -
      length (decoysTimeouts (removeOldRegistrations now r')) = idx"
    by simp
  with ev idx(3) show "checkRegistration IP_String (removeOldRegistrations now r') (Some ip) =
      Inr None"
    by (simp add: checkRegistration_def)
qed

lemma scenario_queue:
  "decoysTimeouts scenario_table = [\<lparr>decoy = ''10.0.0.5'', registrationTime = 0\<rparr>]"
  by (simp add: scenario_table_eq)

lemma queue_after_sweep:
  "decoysTimeouts (removeOldRegistrations (5 * Minute) scenario_table) = []"
proof -
  have "list_all (\<lambda>e. 5 * Minute + removeOld_timeout \<le> registrationTime e)
      (decoysTimeouts scenario_table)"
    by (simp add: scenario_table_eq removeOld_timeout_def Minute_def)
  from removeOld_all_young [OF this] show ?thesis by simp
qed

theorem checkRegistration_most_recent_witness:
  "checkRegistration dotted_quad
     (registerAll
        [(0, ''10.0.0.5'', Some (scenario_reg\<lparr>Covert := ''earlier.example''\<rparr>)),
         (1, ''10.0.0.5'', Some scenario_reg),
         (2, ''10.0.0.6'', Some (scenario_reg\<lparr>Covert := ''other.example''\<rparr>)),
         (3, ''10.0.0.5'', None)]
        NewRegisteredDecoys)
     (Some [10, 0, 0, 5]) = Inr (Some scenario_reg)
   \<and> checkRegistration dotted_quad
       (registerAll [(0, ''10.0.0.6'', Some scenario_reg)] NewRegisteredDecoys)
       (Some [10, 0, 0, 5]) = Inr None
   \<and> checkRegistration dotted_quad (removeOldRegistrations (5 * Minute) scenario_table)
       (Some [10, 0, 0, 5]) = Inr None"
  using checkRegistration_most_recent
    [where IP_String = dotted_quad and ip = "[10, 0, 0, 5]"
      and post = "[(2, ''10.0.0.6'', Some (scenario_reg\<lparr>Covert := ''other.example''\<rparr>)),
        (3, ''10.0.0.5'', None)]"
      and pre = "[(0, ''10.0.0.5'', Some (scenario_reg\<lparr>Covert := ''earlier.example''\<rparr>))]"
      and t = 1 and e = scenario_reg and r = NewRegisteredDecoys
      and calls = "[(0, ''10.0.0.6'', Some scenario_reg)]"
      and r' = scenario_table and now = "5 * Minute"]
  by (simp add: dotted_quad_example queue_after_sweep scenario_queue)

text \<open>
  Claim C7: \<^verbatim>\<open>register\<close> with a nil entity leaves the table as it was, the map and the
  queue, for every table, address and clock reading.
\<close>

theorem register_nil_noop: "register now darkDecoyAddr None r = r"
  by (simp add: register_def)

text \<open>
  Claim C1 says that the sweep removes every entry registered at or before
  \<open>now - 5 minutes\<close> and keeps every later one. The code does otherwise: the loop breaks
  where \<^verbatim>\<open>cutoff.After(registrationTime)\<close> holds, that is at an entry older than the
  cutoff, and deletes where it does not. In the spec's scenario (one registration at
  time 0) the sweep at 6 minutes changes nothing and the entry is still found, and the
  sweep at 1 minute deletes the entry, which is 1 minute old. \<open>removeOld_head_expired\<close> and
  \<open>removeOld_all_young\<close> above give the two cases in general.
\<close>

theorem removeOldRegistrations_keeps_expired:
  "checkRegistration dotted_quad scenario_table (Some [10, 0, 0, 5]) = Inr (Some scenario_reg)
   \<and> removeOldRegistrations (6 * Minute) scenario_table = scenario_table
   \<and> checkRegistration dotted_quad (removeOldRegistrations (6 * Minute) scenario_table)
        (Some [10, 0, 0, 5]) = Inr (Some scenario_reg)
   \<and> checkRegistration dotted_quad (removeOldRegistrations (1 * Minute) scenario_table)
        (Some [10, 0, 0, 5]) = Inr None"
proof -
  have old: "removeOldRegistrations (6 * Minute) scenario_table = scenario_table"
    by (rule removeOld_head_expired [where e = "\<lparr>decoy = ''10.0.0.5'', registrationTime = 0\<rparr>"
          and es = "[]"])
      (simp_all add: scenario_table_eq removeOld_timeout_def Minute_def)
  have "list_all (\<lambda>e. 1 * Minute + removeOld_timeout \<le> registrationTime e)
      (decoysTimeouts scenario_table)"
    by (simp add: scenario_table_eq removeOld_timeout_def Minute_def)
  from removeOld_all_young [OF this]
  have young: "decoys (removeOldRegistrations (1 * Minute) scenario_table) ''10.0.0.5'' = None"
    by (simp add: scenario_table_eq)
  have "decoys scenario_table ''10.0.0.5'' = Some scenario_reg"
    by (simp add: scenario_table_eq)
  with old young show ?thesis
    by (simp add: checkRegistration_def dotted_quad_example)
qed

subsection \<open>Order of the queue\<close>

lemma queue_ordered_mono: "queue_ordered t r \<Longrightarrow> t \<le> now \<Longrightarrow> queue_ordered now r"
  by (auto simp: queue_ordered_def list_all_iff)

lemma register_queue:
  "decoysTimeouts (register now a d r) =
   decoysTimeouts r @
     (case d of None \<Rightarrow> [] | Some reg \<Rightarrow> [\<lparr>decoy = a, registrationTime = now\<rparr>])"
  by (simp add: register_def split: option.splits)

lemma register_ordered:
  "queue_ordered t r \<Longrightarrow> t \<le> now \<Longrightarrow> queue_ordered now (register now a d r)"
  by (cases d) (auto simp: queue_ordered_def register_def sorted_append list_all_iff)

lemma removeOld_suffix:
  "suffix (decoysTimeouts (removeOldRegistrations now r)) (decoysTimeouts r)"
proof -
  obtain idx where
    "decoysTimeouts (removeOldRegistrations now r) = drop idx (decoysTimeouts r)"
    by (rule removeOldRegistrations_result)
  then show ?thesis by (simp add: suffix_drop)
qed

lemma suffix_ordered:
  assumes "suffix (decoysTimeouts r') (decoysTimeouts r)" and "queue_ordered now r"
  shows "queue_ordered now r'"
proof -
  from assms(1) obtain pre where "decoysTimeouts r = pre @ decoysTimeouts r'"
    by (auto simp: suffix_def)
  with assms(2) show ?thesis
    by (auto simp: queue_ordered_def sorted_append list_all_iff)
qed

lemma exec_ordered:
  "queue_ordered t r \<Longrightarrow> t \<le> now \<Longrightarrow> queue_ordered now (exec now c r)"
  by (cases c)
    (auto intro: register_ordered queue_ordered_mono suffix_ordered [OF removeOld_suffix])

lemma run_ordered:
  "queue_ordered t r \<Longrightarrow> sorted (t # map fst cs) \<Longrightarrow>
   queue_ordered (last (t # map fst cs)) (run cs r)"
proof (induction cs arbitrary: t r)
  case Nil
  then show ?case by simp
next
  case (Cons c cs)
  obtain now k where c: "c = (now, k)" by (cases c)
  from Cons.prems c have "queue_ordered now (exec now k r)" "sorted (now # map fst cs)"
    by (auto intro: exec_ordered)
  from Cons.IH [OF this] c show ?case by simp
qed

text \<open>
  Claim C9: the stamps of the queue never decrease along it. This holds of the new
  table and every call keeps it, given that the clock reading of the call is not earlier
  than the readings before it: \<^verbatim>\<open>register\<close> appends one entry stamped with the current
  reading (none for a nil entity), \<^verbatim>\<open>removeOldRegistrations\<close> leaves a suffix of the queue,
  and \<^verbatim>\<open>checkRegistration\<close> leaves the table as it was. Hence the queue is in order after
  every run of calls whose clock readings do not decrease.
\<close>

theorem expiry_queue_order_invariant:
  "queue_ordered now NewRegisteredDecoys
   \<and> (queue_ordered t r \<and> t \<le> now \<longrightarrow> queue_ordered now (exec now c r))
   \<and> decoysTimeouts (register now a d r) =
       decoysTimeouts r @
         (case d of None \<Rightarrow> [] | Some reg \<Rightarrow> [\<lparr>decoy = a, registrationTime = now\<rparr>])
   \<and> suffix (decoysTimeouts (removeOldRegistrations now r)) (decoysTimeouts r)
   \<and> exec now (CheckRegistration addr) r = r
   \<and> (sorted (map fst cs) \<longrightarrow>
        sorted (map registrationTime (decoysTimeouts (run cs NewRegisteredDecoys))))"
proof (intro conjI impI)
  show "queue_ordered now NewRegisteredDecoys"
    by (simp add: queue_ordered_def NewRegisteredDecoys_def)
  show "queue_ordered now (exec now c r)" if "queue_ordered t r \<and> t \<le> now"
    using that by (auto intro: exec_ordered)
  show "decoysTimeouts (register now a d r) =
       decoysTimeouts r @
         (case d of None \<Rightarrow> [] | Some reg \<Rightarrow> [\<lparr>decoy = a, registrationTime = now\<rparr>])"
    by (rule register_queue)
  show "suffix (decoysTimeouts (removeOldRegistrations now r)) (decoysTimeouts r)"
    by (rule removeOld_suffix)
  show "exec now (CheckRegistration addr) r = r"
    by simp
  show "sorted (map registrationTime (decoysTimeouts (run cs NewRegisteredDecoys)))"
    if s: "sorted (map fst cs)"
  proof (cases cs)
    case Nil
    then show ?thesis by (simp add: NewRegisteredDecoys_def)
  next
    case (Cons c cs')
    have "queue_ordered (fst c) NewRegisteredDecoys"
      by (simp add: queue_ordered_def NewRegisteredDecoys_def)
    moreover from s Cons have "sorted (fst c # map fst cs)" by auto
    ultimately have "queue_ordered (last (fst c # map fst cs)) (run cs NewRegisteredDecoys)"
      by (rule run_ordered)
    then show ?thesis by (simp add: queue_ordered_def)
  qed
qed

theorem expiry_queue_order_invariant_witness:
  "queue_ordered 1 (exec 1 (Register ''10.0.0.6'' (Some scenario_reg)) scenario_table)
   \<and> sorted (map registrationTime (decoysTimeouts
        (run [(0, Register ''10.0.0.5'' (Some scenario_reg)),
              (1, CheckRegistration (Some [10, 0, 0, 5])),
              (2, Register ''10.0.0.6'' (Some scenario_reg)),
              (5 * Minute, RemoveOldRegistrations)]
           NewRegisteredDecoys)))"
  using expiry_queue_order_invariant
    [where now = 1 and t = 0 and r = scenario_table
      and c = "Register ''10.0.0.6'' (Some scenario_reg)" and a = "''10.0.0.6''"
      and d = "Some scenario_reg" and addr = "Some [10, 0, 0, 5]"
      and cs = "[(0, Register ''10.0.0.5'' (Some scenario_reg)),
        (1, CheckRegistration (Some [10, 0, 0, 5])),
        (2, Register ''10.0.0.6'' (Some scenario_reg)),
        (5 * Minute, RemoveOldRegistrations)]"]
  by (simp add: queue_ordered_def scenario_table_eq Minute_def)

subsection \<open>The manager's constructor\<close>

text \<open>
  Claim C10: when \<^verbatim>\<open>NewDDIpSelector\<close> fails, \<^verbatim>\<open>NewRegistrationManager\<close> returns nil and writes
  nothing, and the result does not depend on the error: the value of \<^verbatim>\<open>fmt.Errorf\<close> is
  dropped.
\<close>

theorem NewRegistrationManager_discards_error:
  "NewRegistrationManager (Inl err) = (None, [])
   \<and> NewRegistrationManager (Inl err) = NewRegistrationManager (Inl err')"
  by (simp add: NewRegistrationManager_def)

end
